theory Spec2Isabelle
  imports Complex_Main
begin

section \<open>JavaScript numbers\<close>

text \<open>
  A JavaScript \<open>number\<close> is an IEEE 754 binary64 value: a finite double, plus or minus
  \<open>Infinity\<close>, or \<open>NaN\<close>. A finite double is modelled by the real number it stands for,
  and every arithmetic operation rounds its exact result to the nearest double, ties going
  to the even significand. The two zeros are one value here: they compare equal, and the
  code modelled below never divides by a variable.
\<close>

subsection \<open>Rounding a real number to the nearest double\<close>

text \<open>The number of binary digits of a natural number.\<close>

fun bit_length :: "nat \<Rightarrow> nat" where
  "bit_length n = (if n = 0 then 0 else Suc (bit_length (n div 2)))"

declare bit_length.simps [simp del]

text \<open>
  The binary exponent of a positive real: the \<open>e\<close> with \<open>2 ^ e \<le> x < 2 ^ (e + 1)\<close>, read
  off the integer part of \<open>x\<close>, or of \<open>1 / x\<close> below 1.
\<close>

definition exponent :: "real \<Rightarrow> int" where
  "exponent x =
     (if 1 \<le> x then int (bit_length (nat \<lfloor>x\<rfloor>)) - 1
      else - int (bit_length (nat (\<lceil>1 / x\<rceil> - 1))))"

text \<open>The nearest integer, a tie going to the even one.\<close>

definition round_half_even :: "real \<Rightarrow> int" where
  "round_half_even y =
     (let n = \<lfloor>y\<rfloor>; d = y - of_int n
      in if d < 1 / 2 then n else if 1 / 2 < d then n + 1 else if even n then n else n + 1)"

text \<open>
  The spacing of the doubles around \<open>x\<close>: 53 significant bits, and below \<open>2 ^ - 1022\<close> the
  fixed spacing \<open>2 ^ - 1074\<close> of the subnormal numbers.
\<close>

definition quantum :: "real \<Rightarrow> real" where
  "quantum x = 2 powi (max (exponent \<bar>x\<bar>) (- 1022) - 52)"

definition nearest :: "real \<Rightarrow> real" where
  "nearest x = (if x = 0 then 0 else quantum x * of_int (round_half_even (x / quantum x)))"

subsection \<open>Numbers and their operations\<close>

text \<open>\<open>Infinity True\<close> is plus infinity, \<open>Infinity False\<close> minus infinity.\<close>

datatype number = Num real | Infinity bool | NaN

text \<open>
  The result of an operation whose exact value is \<open>x\<close>: the nearest double, or an infinity
  when that is beyond the largest double. A decimal literal of the source, such as \<open>1.35\<close>,
  denotes \<open>round_double\<close> of its decimal value.
\<close>

definition round_double :: "real \<Rightarrow> number" where
  "round_double x =
     (let y = nearest x in if 2 ^ 1024 \<le> \<bar>y\<bar> then Infinity (0 < x) else Num y)"

fun js_mul :: "number \<Rightarrow> number \<Rightarrow> number" where
  "js_mul (Num x) (Num y) = round_double (x * y)"
| "js_mul (Num x) (Infinity s) = (if x = 0 then NaN else Infinity ((0 < x) = s))"
| "js_mul (Infinity s) (Num y) = (if y = 0 then NaN else Infinity (s = (0 < y)))"
| "js_mul (Infinity s) (Infinity t) = Infinity (s = t)"
| "js_mul _ _ = NaN"

fun js_add :: "number \<Rightarrow> number \<Rightarrow> number" where
  "js_add (Num x) (Num y) = round_double (x + y)"
| "js_add (Num x) (Infinity s) = Infinity s"
| "js_add (Infinity s) (Num y) = Infinity s"
| "js_add (Infinity s) (Infinity t) = (if s = t then Infinity s else NaN)"
| "js_add _ _ = NaN"

text \<open>A zero divisor is taken as the positive zero.\<close>

fun js_div :: "number \<Rightarrow> number \<Rightarrow> number" where
  "js_div (Num x) (Num y) =
     (if y = 0 then (if x = 0 then NaN else Infinity (0 < x)) else round_double (x / y))"
| "js_div (Num x) (Infinity s) = Num 0"
| "js_div (Infinity s) (Num y) = Infinity (s = (0 \<le> y))"
| "js_div _ _ = NaN"

text \<open>
  \<open>Math.round\<close> returns the nearest integer, and of two equally near integers the one
  towards plus infinity: the floor of \<open>x + 1/2\<close>, taken exactly.
\<close>

fun Math_round :: "number \<Rightarrow> number" where
  "Math_round (Num x) = Num (of_int \<lfloor>x + 1 / 2\<rfloor>)"
| "Math_round (Infinity s) = Infinity s"
| "Math_round NaN = NaN"

text \<open>The order \<open><=\<close> of numbers: \<open>NaN\<close> is comparable with nothing.\<close>

fun num_le :: "number \<Rightarrow> number \<Rightarrow> bool" where
  "num_le (Num x) (Num y) = (x \<le> y)"
| "num_le (Num x) (Infinity t) = t"
| "num_le (Infinity s) (Num y) = (\<not> s)"
| "num_le (Infinity s) (Infinity t) = (if s then t else True)"
| "num_le _ _ = False"

text \<open>\<open>Math.max\<close> of two numbers is \<open>NaN\<close> as soon as one of them is.\<close>

fun Math_max :: "number \<Rightarrow> number \<Rightarrow> number" where
  "Math_max NaN b = NaN"
| "Math_max a NaN = NaN"
| "Math_max a b = (if num_le a b then b else a)"

section \<open>Pricing engine of the public send/quote page\<close>

text \<open>
  The page computes a volumetric weight from the parcel's dimensions, the chargeable weight
  as the larger of the actual and the volumetric weight, and an estimated price in MMK.
\<close>

subsection \<open>Data\<close>

text \<open>
  \<^verbatim>\<open>const REGIONS = ["Yangon", "Mandalay", "Naypyidaw", "Bago", "Other"] as const;\<close>
  \<^verbatim>\<open>const SERVICES = ["Standard", "Express", "Same-day"] as const;\<close>
  The parameters of \<open>estimatePriceMMK\<close> have the union types of these literals.
\<close>

datatype ServiceType = Standard | Express | Same_day

datatype Region = Yangon | Mandalay | Naypyidaw | Bago | Other

subsection \<open>Operations\<close>

text \<open>
  \<^verbatim>\<open>serviceType === "Same-day" ? 1.8 : serviceType === "Express" ? 1.35 : 1.0\<close>
\<close>

definition serviceMultiplier :: "ServiceType \<Rightarrow> number" where
  "serviceMultiplier serviceType =
     (if serviceType = Same_day then round_double 1.8
      else if serviceType = Express then round_double 1.35 else round_double 1.0)"

text \<open>
  \<^verbatim>\<open>destinationRegion === "Yangon" ? 1.0 : destinationRegion === "Other" ? 1.25 : 1.15\<close>
\<close>

definition regionMultiplier :: "Region \<Rightarrow> number" where
  "regionMultiplier destinationRegion =
     (if destinationRegion = Yangon then round_double 1.0
      else if destinationRegion = Other then round_double 1.25 else round_double 1.15)"

text \<open>
  The local \<open>raw\<close> of \<open>estimatePriceMMK\<close>, its products taken from left to right:
  \<^verbatim>\<open>const base = 2500; const perKg = 1200;\<close>
  \<^verbatim>\<open>const raw = (base + perKg * chargeableWeightKg) * serviceMultiplier * regionMultiplier;\<close>
\<close>

definition raw :: "ServiceType \<Rightarrow> Region \<Rightarrow> number \<Rightarrow> number" where
  "raw serviceType destinationRegion chargeableWeightKg =
     (let base = Num 2500; perKg = Num 1200
      in js_mul
           (js_mul (js_add base (js_mul perKg chargeableWeightKg))
              (serviceMultiplier serviceType))
           (regionMultiplier destinationRegion))"

text \<open>\<^verbatim>\<open>return Math.round(raw / 100) * 100;\<close>\<close>

definition estimatePriceMMK :: "ServiceType \<Rightarrow> Region \<Rightarrow> number \<Rightarrow> number" where
  "estimatePriceMMK serviceType destinationRegion chargeableWeightKg =
     js_mul (Math_round (js_div (raw serviceType destinationRegion chargeableWeightKg) (Num 100)))
       (Num 100)"

text \<open>
  \<^verbatim>\<open>const v = (lengthCm * widthCm * heightCm) / 5000; return Math.max(0, v);\<close>
\<close>

definition volumetricWeightKg :: "number \<Rightarrow> number \<Rightarrow> number \<Rightarrow> number" where
  "volumetricWeightKg lengthCm widthCm heightCm =
     (let v = js_div (js_mul (js_mul lengthCm widthCm) heightCm) (Num 5000)
      in Math_max (Num 0) v)"

text \<open>
  The chargeable weight only selects one of two finite numbers (\<open>||\<close>, \<open>Number\<close>,
  \<open>Math.max\<close>); nothing is rounded, so it is written on the real values of the two.

  \<open>x || 0\<close> on a number: the falsy number \<open>0\<close> gives the right operand, any other number
  is kept.
\<close>

definition or_zero :: "real \<Rightarrow> real" where
  "or_zero x = (if x = 0 then 0 else x)"

text \<open>
  The memo \<open>chargeableKg\<close> of the page, as a function of the watched weight and of the
  volumetric weight it depends on:
  \<^verbatim>\<open>const actual = Number(watched.weightKg || 0); return Math.max(actual, volKg);\<close>
\<close>

definition chargeableKg :: "real \<Rightarrow> real \<Rightarrow> real" where
  "chargeableKg weightKg volKg = (let actual = or_zero weightKg in max actual volKg)"

subsection \<open>The tariff as the specification words it\<close>

text \<open>
  The specification's table of multipliers, one line per entry and in exact decimals, and
  its rounding to the nearest 100 with the half going up, written with the remainder of
  the division by 100. The source's functions are compared with these.
\<close>

fun spec_serviceMultiplier :: "ServiceType \<Rightarrow> real" where
  "spec_serviceMultiplier Standard = 1.0"
| "spec_serviceMultiplier Express = 1.35"
| "spec_serviceMultiplier Same_day = 1.8"

fun spec_regionMultiplier :: "Region \<Rightarrow> real" where
  "spec_regionMultiplier Yangon = 1.0"
| "spec_regionMultiplier Other = 1.25"
| "spec_regionMultiplier _ = 1.15"

definition round_to_nearest_100 :: "real \<Rightarrow> real" where
  "round_to_nearest_100 x =
     (let q = \<lfloor>x / 100\<rfloor>; r = x - 100 * of_int q
      in if r < 50 then 100 * of_int q else 100 * of_int (q + 1))"

section \<open>Profile synchronisation: the hook \<open>useAuthProfile\<close>\<close>

text \<open>
  The hook keeps three React state cells (\<open>user\<close>, \<open>profile\<close>, \<open>loading\<close>) and, in one
  effect, registers an observer on the authentication stream (\<open>onAuthStateChanged\<close>). For
  every non-null identity the observer opens a listener on the profile document
  \<open>users/{uid}\<close> (\<open>onSnapshot\<close>). The authentication provider and the document store are
  outside the repository; what they may do is the event type below. Events are handled one
  at a time, each callback running to its end, as on the JavaScript event loop.
\<close>

subsection \<open>Data\<close>

datatype Role =
  super_admin | manager | sub_station_manager | supervisor | warehouse
  | rider_driver | merchant | vendor | customer | accountant

text \<open>
  The fields of the provider's \<open>User\<close> that the hook reads: \<open>uid\<close>, \<open>displayName\<close> and
  \<open>email\<close>, the last two nullable.
\<close>

record User =
  uid :: string
  user_displayName :: "string option"
  user_email :: "string option"

record UserProfile =
  role :: "Role option"
  stationId :: "string option"
  stationName :: "string option"
  displayName :: "string option"
  email :: "string option"

text \<open>
  A document snapshot: \<open>None\<close> when \<open>snap.exists()\<close> is false (then \<open>snap.data()\<close> is
  undefined), the document's data otherwise.
\<close>

type_synonym DocumentSnapshot = "UserProfile option"

text \<open>The value the hook returns: \<^verbatim>\<open>return { user, profile, loading };\<close>\<close>

record SyncState =
  user :: "User option"
  profile :: "UserProfile option"
  loading :: bool

text \<open>
  The hook together with what it has registered outside: whether its observer is on the
  authentication stream, and the profile listeners that are open, each with the identity
  \<open>u\<close> its two callbacks have captured.
\<close>

record Hook =
  cells :: SyncState
  authListener :: bool
  profileListeners :: "User list"

subsection \<open>The state setters and the subscriptions\<close>

definition setUser :: "User option \<Rightarrow> Hook \<Rightarrow> Hook" where
  "setUser u h = h\<lparr>cells := (cells h)\<lparr>user := u\<rparr>\<rparr>"

definition setProfile :: "UserProfile option \<Rightarrow> Hook \<Rightarrow> Hook" where
  "setProfile p h = h\<lparr>cells := (cells h)\<lparr>profile := p\<rparr>\<rparr>"

definition setLoading :: "bool \<Rightarrow> Hook \<Rightarrow> Hook" where
  "setLoading b h = h\<lparr>cells := (cells h)\<lparr>loading := b\<rparr>\<rparr>"

text \<open>
  \<^verbatim>\<open>{ role: "customer", displayName: u.displayName ?? undefined, email: u.email ?? undefined }\<close>
\<close>

definition defaultProfile :: "User \<Rightarrow> UserProfile" where
  "defaultProfile u =
     \<lparr>role = Some customer, stationId = None, stationName = None,
      displayName = user_displayName u, email = user_email u\<rparr>"

text \<open>
  \<open>onSnapshot(ref, next, error)\<close> opens a listener and returns the function that closes
  it (\<open>unsubProfile\<close>); \<open>unsubAuth\<close> is the function \<open>onAuthStateChanged\<close> returns.
\<close>

definition onSnapshot :: "User \<Rightarrow> Hook \<Rightarrow> Hook" where
  "onSnapshot u h = h\<lparr>profileListeners := profileListeners h @ [u]\<rparr>"

definition unsubProfile :: "User \<Rightarrow> Hook \<Rightarrow> Hook" where
  "unsubProfile u h = h\<lparr>profileListeners := remove1 u (profileListeners h)\<rparr>"

definition unsubAuth :: "Hook \<Rightarrow> Hook" where
  "unsubAuth h = h\<lparr>authListener := False\<rparr>"

subsection \<open>The callbacks\<close>

text \<open>
  The two callbacks given to \<open>onSnapshot\<close>, for the identity \<open>u\<close> of the enclosing call:
  \<^verbatim>\<open>(snap) => { if (snap.exists()) setProfile(snap.data()) else setProfile({...default});\<close>
  \<^verbatim>\<open>            setLoading(false); }\<close>
  \<^verbatim>\<open>() => { setProfile({...default}); setLoading(false); }\<close>
\<close>

definition onNext :: "User \<Rightarrow> DocumentSnapshot \<Rightarrow> Hook \<Rightarrow> Hook" where
  "onNext u snap h =
     setLoading False
       (case snap of
          Some d \<Rightarrow> setProfile (Some d) h
        | None \<Rightarrow> setProfile (Some (defaultProfile u)) h)"

definition onError :: "User \<Rightarrow> Hook \<Rightarrow> Hook" where
  "onError u h = setLoading False (setProfile (Some (defaultProfile u)) h)"

text \<open>
  The observer given to \<open>onAuthStateChanged\<close>:
  \<^verbatim>\<open>(u) => { setUser(u); setLoading(true);\<close>
  \<^verbatim>\<open>         if (!u) { setProfile(null); setLoading(false); return; }\<close>
  \<^verbatim>\<open>         const unsubProfile = onSnapshot(ref, ..., ...);\<close>
  \<^verbatim>\<open>         return () => unsubProfile(); }\<close>
  Its result is the new state and the function it returns, if any. (A second copy of the hook
  calls \<open>setLoading(true)\<close> after the test for null instead of before; the state at the end
  of the callback is the same.)
\<close>

definition authCallback :: "User option \<Rightarrow> Hook \<Rightarrow> Hook \<times> (Hook \<Rightarrow> Hook) option" where
  "authCallback u h =
     (let h1 = setLoading True (setUser u h)
      in case u of
           None \<Rightarrow> (setLoading False (setProfile None h1), None)
         | Some usr \<Rightarrow> (onSnapshot usr h1, Some (unsubProfile usr)))"

subsection \<open>Mounting, events and teardown\<close>

text \<open>
  After the effect has run: the cells hold their initial values
  (\<open>useState(null)\<close>, \<open>useState(null)\<close>, \<open>useState(true)\<close>), the observer is registered and no
  profile listener is open.
\<close>

definition mount :: Hook where
  "mount =
     \<lparr>cells = \<lparr>user = None, profile = None, loading = True\<rparr>,
      authListener = True, profileListeners = []\<rparr>"

text \<open>
  What can happen to a mounted hook: the authentication stream delivers an identity or
  null; the document store delivers a snapshot or an error to an open profile listener
  (named by the identity it captured); the component unmounts, which runs the effect's
  cleanup \<^verbatim>\<open>() => unsubAuth()\<close>.

  The authentication stream calls its observer for the observer's effect only: the type
  of the observer returns nothing, and the function the hook's observer returns is not
  called by anyone. So \<open>AuthChanged\<close> keeps the first component of \<open>authCallback\<close>. A
  listener gets events for as long as it has not been closed; after an error the store
  sends it nothing more.
\<close>

datatype Event =
  AuthChanged "User option"
  | DocSnapshot User DocumentSnapshot
  | DocError User
  | Teardown

fun step :: "Hook \<Rightarrow> Event \<Rightarrow> Hook" where
  "step h (AuthChanged u) = (if authListener h then fst (authCallback u h) else h)"
| "step h (DocSnapshot u snap) =
     (if u \<in> set (profileListeners h) then onNext u snap h else h)"
| "step h (DocError u) =
     (if u \<in> set (profileListeners h) then unsubProfile u (onError u h) else h)"
| "step h Teardown = unsubAuth h"

definition run :: "Event list \<Rightarrow> Hook" where
  "run events = foldl step mount events"

subsection \<open>The copy of the hook that reads the document once\<close>

text \<open>
  Another file of the repository holds a \<open>useAuthProfile\<close> that reads the profile with
  \<open>getDoc\<close> instead of listening to it:
  \<^verbatim>\<open>async (u) => { setUser(u); setProfile(null);\<close>
  \<^verbatim>\<open>               if (!u) { setLoading(false); return; }\<close>
  \<^verbatim>\<open>               setLoading(true);\<close>
  \<^verbatim>\<open>               try { const snap = await getDoc(doc(db, "users", u.uid));\<close>
  \<^verbatim>\<open>                     setProfile((snap.data() as UserProfile) ?? null); }\<close>
  \<^verbatim>\<open>               finally { setLoading(false); } }\<close>
  The callback runs up to the \<open>await\<close> (\<open>authCallback_getDoc\<close>, which also gives the
  identity whose document is being read), and resumes when the read has settled
  (\<open>getDoc_settled\<close>). There is no \<open>catch\<close>: after the \<open>finally\<close> block a failed read
  leaves the callback as a rejection.
\<close>

datatype FirestoreError = FirestoreError string

definition authCallback_getDoc :: "User option \<Rightarrow> Hook \<Rightarrow> Hook \<times> User option" where
  "authCallback_getDoc u h =
     (let h1 = setProfile None (setUser u h)
      in case u of
           None \<Rightarrow> (setLoading False h1, None)
         | Some usr \<Rightarrow> (setLoading True h1, Some usr))"

definition getDoc_settled ::
  "FirestoreError + DocumentSnapshot \<Rightarrow> Hook \<Rightarrow> (FirestoreError + unit) \<times> Hook" where
  "getDoc_settled result h =
     (case result of
        Inr snap \<Rightarrow> (Inr (), setLoading False (setProfile snap h))
      | Inl err \<Rightarrow> (Inl err, setLoading False h))"

subsection \<open>The component that uses the hook\<close>

text \<open>
  The cells belong to the React component that calls the hook, and what the hook publishes
  is what that component renders. While the component is mounted an event does what
  \<open>step\<close> says. Unmounting runs the effect's cleanup. A profile listener that is still
  open keeps calling its callbacks afterwards, but React ignores a state setter called for
  an unmounted component: the cells stay what they were at the teardown.
\<close>

datatype Component = Mounted Hook | Unmounted Hook

fun deliver :: "Component \<Rightarrow> Event \<Rightarrow> Component" where
  "deliver (Mounted h) Teardown = Unmounted (step h Teardown)"
| "deliver (Mounted h) e = Mounted (step h e)"
| "deliver (Unmounted h) e = Unmounted ((step h e)\<lparr>cells := cells h\<rparr>)"

fun published :: "Component \<Rightarrow> SyncState" where
  "published (Mounted h) = cells h"
| "published (Unmounted h) = cells h"

subsection \<open>Sample identities and profile documents\<close>

abbreviation user_U :: User where
  "user_U \<equiv>
     \<lparr>uid = ''U'', user_displayName = Some ''Una'', user_email = Some ''una@example.org''\<rparr>"

abbreviation user_V :: User where
  "user_V \<equiv>
     \<lparr>uid = ''V'', user_displayName = None, user_email = Some ''vic@example.org''\<rparr>"

abbreviation profile_U :: UserProfile where
  "profile_U \<equiv>
     \<lparr>role = Some manager, stationId = Some ''S1'', stationName = None,
      displayName = Some ''Una'', email = None\<rparr>"

abbreviation profile_V :: UserProfile where
  "profile_V \<equiv>
     \<lparr>role = Some merchant, stationId = None, stationName = None,
      displayName = Some ''Vic'', email = None\<rparr>"


section \<open>The REST client's logout\<close>

text \<open>
  The client keeps the token in the default headers of its axios instance:
  \<^verbatim>\<open>if (token) api.defaults.headers.common.Authorization = `Bearer ${token}`;\<close>
  \<^verbatim>\<open>else delete api.defaults.headers.common.Authorization;\<close>
  The empty string is falsy, like null.
\<close>

datatype ApiError = ApiError string

record ApiClient =
  headers_common :: "string \<rightharpoonup> string"

definition setAuthToken :: "string option \<Rightarrow> ApiClient \<Rightarrow> ApiClient" where
  "setAuthToken token api =
     (case token of
        None \<Rightarrow> api\<lparr>headers_common := (headers_common api)(''Authorization'' := None)\<rparr>
      | Some t \<Rightarrow>
          if t = [] then api\<lparr>headers_common := (headers_common api)(''Authorization'' := None)\<rparr>
          else api\<lparr>headers_common :=
                 (headers_common api)(''Authorization'' \<mapsto> ''Bearer '' @ t)\<rparr>)"

text \<open>
  \<^verbatim>\<open>try { await api.post("/auth/logout"); } catch (err) { } finally { setAuthToken(null); }\<close>
  The request is a parameter: it fails (\<open>Inl\<close>) or answers, and whatever else runs while
  it is awaited may have changed the client. The result of \<open>logout\<close> is what its caller
  gets (\<open>Inl\<close> a rejection) and the client afterwards. Both copies of \<open>auth.ts\<close> have this
  body.
\<close>

definition logout ::
  "(ApiClient \<Rightarrow> (ApiError + 'r) \<times> ApiClient) \<Rightarrow> ApiClient
     \<Rightarrow> (ApiError + unit) \<times> ApiClient" where
  "logout post api =
     (let (response, api1) = post api;
          caught = (case response of Inl err \<Rightarrow> Inr () | Inr r \<Rightarrow> Inr ())
      in (caught, setAuthToken None api1))"


section \<open>Properties of the rounding to doubles\<close>

text \<open>
  The exponent is the right one; rounding is monotone, odd, idempotent, within half a
  spacing of its argument, and leaves alone every number \<open>m * 2 ^ j\<close> with \<open>\<bar>m\<bar> < 2 ^ 53\<close>
  and \<open>j \<ge> - 1074\<close>.
\<close>

lemma bit_length_bounds:
  "0 < n \<Longrightarrow> 2 ^ (bit_length n - 1) \<le> n \<and> n < 2 ^ bit_length n"
proof (induction n rule: bit_length.induct)
  case (1 n)
  show ?case
  proof (cases "n div 2 = 0")
    case True
    with "1.prems" have "n = 1" by (simp add: div_eq_0_iff) 
    then show ?thesis
      by (simp add: bit_length.simps)
  next
    case False
    then have ih: "2 ^ (bit_length (n div 2) - 1) \<le> n div 2" "n div 2 < 2 ^ bit_length (n div 2)"
      using "1.IH" "1.prems" by auto
    have pos: "0 < bit_length (n div 2)"
      using False by (subst bit_length.simps) simp
    have eq: "bit_length n = Suc (bit_length (n div 2))"
      using "1.prems" by (subst bit_length.simps) simp
    have "(2::nat) ^ bit_length (n div 2) = 2 * 2 ^ (bit_length (n div 2) - 1)"
      using pos by (cases "bit_length (n div 2)") simp_all
    with ih have "2 ^ bit_length (n div 2) \<le> n" by linarith
    moreover have "n < 2 * 2 ^ bit_length (n div 2)"
      using ih(2) by linarith
    ultimately show ?thesis
      by (simp add: eq)
  qed
qed

lemma bit_length_pos: "0 < n \<Longrightarrow> 0 < bit_length n"
  by (subst bit_length.simps) simp

lemma two_powi_less_imp:
  assumes "(2::real) powi a < 2 powi b"
  shows "a < b"
proof (rule ccontr)
  assume "\<not> a < b"
  then have "(2::real) powi b \<le> 2 powi a"
    by (intro power_int_increasing) simp_all
  with assms show False by simp
qed

lemma exponent_bounds:
  assumes "0 < x"
  shows "2 powi exponent x \<le> x \<and> x < 2 powi (exponent x + 1)"
proof (cases "1 \<le> x")
  case True
  define n where "n = nat \<lfloor>x\<rfloor>"
  have fl: "1 \<le> \<lfloor>x\<rfloor>"
    using True by simp
  have n: "0 < n" "real n \<le> x" "x < real n + 1"
  proof -
    show "0 < n" using fl by (simp add: n_def)
    have "real n = of_int \<lfloor>x\<rfloor>" using fl by (simp add: n_def)
    then show "real n \<le> x" "x < real n + 1" by linarith+
  qed
  define b where "b = bit_length n"
  have b: "0 < b" "2 ^ (b - 1) \<le> n" "n < 2 ^ b"
    using bit_length_bounds [OF n(1)] bit_length_pos [OF n(1)] by (simp_all add: b_def)
  have e: "exponent x = int b - 1"
    using True by (simp add: exponent_def n_def b_def)
  have p: "(2::real) powi (int b - 1) = 2 ^ (b - 1)"
    using b(1) by (simp add: power_int_def nat_diff_distrib')
  have q: "(2::real) powi (int b - 1 + 1) = 2 ^ b"
    by simp
  have lo: "(2::real) ^ (b - 1) \<le> real n"
    using b(2) of_nat_le_iff [of "2 ^ (b - 1)" n, where 'a = real] by simp
  have hi: "real n + 1 \<le> 2 ^ b"
    using b(3) of_nat_le_iff [of "Suc n" "2 ^ b", where 'a = real] by simp
  show ?thesis
    unfolding e p q using lo hi n by linarith
next
  case False
  define m where "m = \<lceil>1 / x\<rceil>"
  have x1: "1 < 1 / x" using assms False by simp
  have m: "2 \<le> m" "1 / x \<le> of_int m" "of_int m - 1 < 1 / x"
  proof -
    show "1 / x \<le> of_int m" "of_int m - 1 < 1 / x"
      unfolding m_def by linarith+
    then have "1 < (of_int m :: real)" using x1 by linarith
    then show "2 \<le> m" by simp
  qed
  define k where "k = nat (m - 1)"
  have k: "0 < k" "real k = of_int m - 1"
    using m(1) by (simp_all add: k_def)
  define b where "b = bit_length k"
  have b: "0 < b" "2 ^ (b - 1) \<le> k" "k < 2 ^ b"
    using bit_length_bounds [OF k(1)] bit_length_pos [OF k(1)] by (simp_all add: b_def)
  have e: "exponent x = - int b"
    using False by (simp add: exponent_def m_def k_def b_def)
  have lo: "(2::real) ^ (b - 1) \<le> real k"
    using b(2) of_nat_le_iff [of "2 ^ (b - 1)" k, where 'a = real] by simp
  have hi: "real k + 1 \<le> 2 ^ b"
    using b(3) of_nat_le_iff [of "Suc k" "2 ^ b", where 'a = real] by simp
  have "1 / x \<le> 2 ^ b" using hi m(2) k(2) by linarith
  then have "1 \<le> 2 ^ b * x" using assms by (simp add: field_simps)
  then have A: "2 powi (- int b) \<le> x"
    by (simp add: power_int_minus field_simps)
  have "2 ^ (b - 1) < 1 / x" using lo m(3) k(2) by linarith
  then have "x < 1 / 2 ^ (b - 1)" using assms by (simp add: field_simps)
  moreover have "(2::real) powi (- int b + 1) = 1 / 2 ^ (b - 1)"
    using b(1) by (cases b) (simp_all add: power_int_def field_simps)
  ultimately have B: "x < 2 powi (- int b + 1)"
    by (simp only:)
  show ?thesis using A B by (simp add: e)
qed

lemma exponent_unique:
  assumes "2 powi e \<le> x" and "x < 2 powi (e + 1)"
  shows "exponent x = e"
proof -
  have "(0::real) < 2 powi e"
    by (simp add: zero_less_power_int)
  with assms(1) have pos: "0 < x"
    by linarith
  note b = exponent_bounds [OF pos]
  have "(2::real) powi e < 2 powi (exponent x + 1)" using assms(1) b by linarith
  then have "e < exponent x + 1"
    by (rule two_powi_less_imp)
  moreover have "(2::real) powi exponent x < 2 powi (e + 1)" using assms(2) b by linarith
  then have "exponent x < e + 1"
    by (rule two_powi_less_imp)
  ultimately show ?thesis by simp
qed

lemma exponent_mono:
  assumes "0 < x" and "x \<le> y"
  shows "exponent x \<le> exponent y"
proof -
  have "(2::real) powi exponent x < 2 powi (exponent y + 1)"
    using exponent_bounds [OF assms(1)] exponent_bounds [of y] assms by linarith
  then have "exponent x < exponent y + 1"
    by (rule two_powi_less_imp)
  then show ?thesis by simp
qed

lemma round_half_even_close: "\<bar>of_int (round_half_even y) - y\<bar> \<le> 1 / 2"
  unfolding round_half_even_def Let_def by (auto simp: abs_le_iff)

lemma round_half_even_of_int [simp]: "round_half_even (of_int n) = n"
  by (simp add: round_half_even_def)

lemma round_half_even_mono:
  assumes "y \<le> z"
  shows "round_half_even y \<le> round_half_even z"
proof (cases "\<lfloor>y\<rfloor> = \<lfloor>z\<rfloor>")
  case True
  then show ?thesis
    using assms unfolding round_half_even_def Let_def by auto
next
  case False
  then have "\<lfloor>y\<rfloor> + 1 \<le> \<lfloor>z\<rfloor>"
    using assms floor_mono [OF assms] by linarith
  moreover have "round_half_even y \<le> \<lfloor>y\<rfloor> + 1"
    unfolding round_half_even_def Let_def by auto
  moreover have "\<lfloor>z\<rfloor> \<le> round_half_even z"
    unfolding round_half_even_def Let_def by auto
  ultimately show ?thesis by linarith
qed

lemma round_half_even_minus: "round_half_even (- y) = - round_half_even y"
proof (cases "y \<in> \<int>")
  case True
  then obtain n where "y = of_int n" by (auto elim: Ints_cases)
  then show ?thesis
    by (metis of_int_minus round_half_even_of_int)
next
  case False
  have ne: "y \<noteq> of_int \<lfloor>y\<rfloor>"
  proof
    assume "y = of_int \<lfloor>y\<rfloor>"
    then have "y \<in> \<int>" by (metis Ints_of_int)
    with False show False by simp
  qed
  have f: "\<lfloor>- y\<rfloor> = - \<lfloor>y\<rfloor> - 1"
    using ne by (simp add: floor_minus ceiling_altdef)
  have "0 < frac y"
    using False frac_gt_0_iff by blast
  moreover have "frac y < 1"
    by (rule frac_lt_1)
  ultimately have d: "0 < y - of_int \<lfloor>y\<rfloor>" "y - of_int \<lfloor>y\<rfloor> < 1"
    by (simp_all add: frac_def)
  have e: "- y - of_int (- \<lfloor>y\<rfloor> - 1) = 1 - (y - of_int \<lfloor>y\<rfloor>)"
    by simp
  show ?thesis
  proof (cases "y - of_int \<lfloor>y\<rfloor> < 1 / 2")
    case True
    then show ?thesis
      unfolding round_half_even_def Let_def f e using d by simp
  next
    case False
    note nl = this
    show ?thesis
    proof (cases "1 / 2 < y - of_int \<lfloor>y\<rfloor>")
      case True
      then show ?thesis
        unfolding round_half_even_def Let_def f e using d by simp
    next
      case False
      with nl have "y - of_int \<lfloor>y\<rfloor> = 1 / 2" by linarith
      then show ?thesis
        unfolding round_half_even_def Let_def f e by simp
    qed
  qed
qed

lemma quantum_pos [simp]: "0 < quantum x"
  by (simp add: quantum_def)

lemma quantum_nonneg [simp]: "0 \<le> quantum x"
  by (simp add: quantum_def)

lemma quantum_nonzero [simp]: "quantum x \<noteq> 0"
  by (simp add: quantum_def)

lemma round_half_even_numeral [simp]: "round_half_even (numeral k) = numeral k"
  using round_half_even_of_int [of "numeral k"] by simp

lemma two_powi_53: "(2::real) powi (E + 1) = 2 ^ 53 * 2 powi (E - 52)"
  using power_int_add [of "2::real" 53 "E - 52"] by (simp add: add.commute)

lemma two_powi_52: "(2::real) powi E = 2 ^ 52 * 2 powi (E - 52)"
  using power_int_add [of "2::real" 52 "E - 52"] by simp

lemma quantum_minus [simp]: "quantum (- x) = quantum x"
  by (simp add: quantum_def)

lemma nearest_0 [simp]: "nearest 0 = 0"
  by (simp add: nearest_def)

lemma nearest_minus: "nearest (- x) = - nearest x"
  by (simp add: nearest_def round_half_even_minus)

lemma round_half_even_nonneg: "0 \<le> y \<Longrightarrow> 0 \<le> round_half_even y"
  using round_half_even_mono [of 0 y] round_half_even_of_int [of 0] by simp

lemma nearest_nonneg: "0 \<le> x \<Longrightarrow> 0 \<le> nearest x"
  by (simp add: nearest_def round_half_even_nonneg)

lemma nearest_close: "\<bar>nearest x - x\<bar> \<le> quantum x / 2"
proof (cases "x = 0")
  case True
  then show ?thesis by simp
next
  case False
  define q where "q = quantum x"
  define n where "n = round_half_even (x / q)"
  have q: "0 < q" by (simp add: q_def)
  have "\<bar>of_int n - x / q\<bar> \<le> 1 / 2"
    unfolding n_def by (rule round_half_even_close)
  then have a: "q * \<bar>of_int n - x / q\<bar> \<le> q * (1 / 2)"
    using q by (intro mult_left_mono) simp_all
  have "q * of_int n - x = q * (of_int n - x / q)"
    using q by (simp add: field_simps)
  then have b: "\<bar>q * of_int n - x\<bar> = q * \<bar>of_int n - x / q\<bar>"
    using q by (simp add: abs_mult)
  have nx: "nearest x = q * of_int n"
    using False by (simp add: nearest_def q_def n_def)
  show ?thesis
    unfolding nx b q_def [symmetric] using a by simp
qed

lemma nearest_on_grid:
  assumes "x / quantum x = of_int m"
  shows "nearest x = x"
proof (cases "x = 0")
  case True
  then show ?thesis by simp
next
  case False
  have "quantum x * of_int m = x"
    using assms [symmetric] by simp
  then show ?thesis
    using False by (simp add: nearest_def assms)
qed

lemma nearest_representable:
  assumes "x = of_int m * 2 powi j" and "\<bar>m\<bar> < 2 ^ 53" and "- 1074 \<le> j"
  shows "nearest x = x"
proof (cases "x = 0")
  case True
  then show ?thesis by simp
next
  case False
  define e where "e = exponent \<bar>x\<bar>"
  define E where "E = max e (- 1022)"
  have pos: "0 < \<bar>x\<bar>" using False by simp
  have "\<bar>x\<bar> = of_int \<bar>m\<bar> * 2 powi j"
    by (simp add: assms(1) abs_mult power_int_abs)
  moreover have "(of_int \<bar>m\<bar> :: real) < 2 ^ 53"
    using assms(2) by (metis of_int_less_iff of_int_numeral of_int_power)
  ultimately have "\<bar>x\<bar> < 2 ^ 53 * 2 powi j"
    by simp
  also have "\<dots> = 2 powi (53 + j)"
    by (simp add: power_int_add)
  finally have "(2::real) powi e < 2 powi (53 + j)"
    using exponent_bounds [OF pos] unfolding e_def by linarith
  then have "e < 53 + j"
    by (rule two_powi_less_imp)
  then have Ej: "E - 52 \<le> j"
    using assms(3) by (simp add: E_def)
  define d where "d = nat (j - (E - 52))"
  have j: "j = (E - 52) + int d"
    using Ej by (simp add: d_def)
  have "x / quantum x = of_int m * 2 powi j / 2 powi (E - 52)"
    by (simp add: quantum_def E_def e_def assms(1))
  also have "\<dots> = of_int m * 2 ^ d"
    by (simp add: j power_int_add)
  also have "\<dots> = of_int (m * 2 ^ d)"
    by simp
  finally show ?thesis
    by (rule nearest_on_grid)
qed

lemma round_half_even_bounds:
  assumes "\<bar>y\<bar> \<le> of_int n"
  shows "\<bar>round_half_even y\<bar> \<le> n"
proof -
  have "round_half_even y \<le> round_half_even (of_int n)"
    using assms by (intro round_half_even_mono) linarith
  moreover have "round_half_even (of_int (- n)) \<le> round_half_even y"
    using assms by (intro round_half_even_mono) simp
  ultimately show ?thesis by (simp add: round_half_even_minus)
qed

lemma nearest_idem [simp]: "nearest (nearest x) = nearest x"
proof (cases "x = 0")
  case True
  then show ?thesis by simp
next
  case False
  define E where "E = max (exponent \<bar>x\<bar>) (- 1022)"
  define n where "n = round_half_even (x / quantum x)"
  have q: "quantum x = 2 powi (E - 52)"
    by (simp add: quantum_def E_def)
  have nx: "nearest x = of_int n * 2 powi (E - 52)"
    using False by (simp add: nearest_def n_def q)
  have pos: "0 < \<bar>x\<bar>" using False by simp
  have "\<bar>x\<bar> < 2 powi (exponent \<bar>x\<bar> + 1)"
    using exponent_bounds [OF pos] by simp
  also have "\<dots> \<le> 2 powi (E + 1)"
    by (intro power_int_increasing) (simp_all add: E_def)
  finally have "\<bar>x\<bar> / 2 powi (E - 52) < 2 powi (E + 1) / 2 powi (E - 52)"
    by (simp add: divide_strict_right_mono)
  also have "\<dots> = 2 ^ 53"
    by (simp add: power_int_diff [symmetric])
  finally have "\<bar>x / quantum x\<bar> \<le> of_int (2 ^ 53)"
    by (simp add: q)
  then have n: "\<bar>n\<bar> \<le> 2 ^ 53"
    unfolding n_def by (rule round_half_even_bounds)
  have E: "- 1074 \<le> E - 52"
    by (simp add: E_def)
  show ?thesis
  proof (cases "\<bar>n\<bar> < 2 ^ 53")
    case True
    show ?thesis
      by (rule nearest_representable [OF nx True E])
  next
    case False
    with n have "n = 2 ^ 53 \<or> n = - (2 ^ 53)" by linarith
    then have "nearest x = of_int (if 0 < n then 1 else - 1) * 2 powi (E + 1)"
      by (auto simp: nx two_powi_53 [of E])
    then show ?thesis
      by (rule nearest_representable) (simp_all add: E_def)
  qed
qed

lemma nearest_upper:
  assumes "0 < x"
  shows "nearest x \<le> 2 powi (max (exponent x) (- 1022) + 1)"
proof -
  define E where "E = max (exponent x) (- 1022)"
  have q: "quantum x = 2 powi (E - 52)"
    using assms by (simp add: quantum_def E_def)
  have "x < 2 powi (exponent x + 1)"
    using exponent_bounds [OF assms] by simp
  also have "\<dots> \<le> 2 powi (E + 1)"
    by (intro power_int_increasing) (simp_all add: E_def)
  finally have "x / 2 powi (E - 52) \<le> 2 powi (E + 1) / 2 powi (E - 52)"
    by (simp add: divide_right_mono)
  also have "\<dots> = of_int (2 ^ 53)"
    by (simp add: power_int_diff [symmetric])
  finally have "round_half_even (x / quantum x) \<le> 2 ^ 53"
    using round_half_even_mono [of "x / quantum x" "of_int (2 ^ 53)"] by (simp add: q)
  then have "(of_int (round_half_even (x / quantum x)) :: real) \<le> 2 ^ 53"
    by (metis of_int_le_iff of_int_numeral of_int_power)
  then have a: "quantum x * of_int (round_half_even (x / quantum x)) \<le> quantum x * 2 ^ 53"
    by (intro mult_left_mono) simp_all
  have b: "quantum x * 2 ^ 53 = 2 powi (E + 1)"
    by (simp add: q two_powi_53 [of E])
  have nx: "nearest x = quantum x * of_int (round_half_even (x / quantum x))"
    using assms by (simp add: nearest_def)
  show ?thesis
    unfolding nx E_def [symmetric] using a b by linarith
qed

lemma nearest_lower:
  assumes "0 < x" and "- 1022 \<le> exponent x"
  shows "2 powi exponent x \<le> nearest x"
proof -
  define E where "E = exponent x"
  have q: "quantum x = 2 powi (E - 52)"
    using assms by (simp add: quantum_def E_def max_def)
  have "2 powi E \<le> x"
    using exponent_bounds [OF assms(1)] by (simp add: E_def)
  then have "2 powi E / 2 powi (E - 52) \<le> x / 2 powi (E - 52)"
    by (simp add: divide_right_mono)
  moreover have "(2::real) powi E / 2 powi (E - 52) = of_int (2 ^ 52)"
    by (simp add: power_int_diff [symmetric])
  ultimately have "2 ^ 52 \<le> round_half_even (x / quantum x)"
    using round_half_even_mono [of "of_int (2 ^ 52)" "x / quantum x"] by (simp add: q)
  then have "(2::real) ^ 52 \<le> of_int (round_half_even (x / quantum x))"
    by (metis of_int_le_iff of_int_numeral of_int_power)
  then have a: "quantum x * 2 ^ 52 \<le> quantum x * of_int (round_half_even (x / quantum x))"
    by (intro mult_left_mono) simp_all
  have b: "quantum x * 2 ^ 52 = 2 powi E"
    by (simp add: q two_powi_52 [of E])
  have nx: "nearest x = quantum x * of_int (round_half_even (x / quantum x))"
    using assms by (simp add: nearest_def)
  show ?thesis
    unfolding nx E_def [symmetric] using a b by linarith
qed

lemma nearest_mono_pos:
  assumes "0 < x" and "x \<le> y"
  shows "nearest x \<le> nearest y"
proof -
  define Ex where "Ex = max (exponent x) (- 1022)"
  define Ey where "Ey = max (exponent y) (- 1022)"
  have y: "0 < y" using assms by simp
  have le: "Ex \<le> Ey"
    using exponent_mono [OF assms] by (simp add: Ex_def Ey_def)
  show ?thesis
  proof (cases "Ex = Ey")
    case True
    then have "quantum x = quantum y"
      using assms y by (simp add: quantum_def Ex_def Ey_def)
    moreover have "x / quantum y \<le> y / quantum y"
      using assms by (simp add: divide_right_mono)
    then have "round_half_even (x / quantum y) \<le> round_half_even (y / quantum y)"
      by (rule round_half_even_mono)
    ultimately show ?thesis
      using assms y by (simp add: nearest_def)
  next
    case False
    with le have lt: "Ex + 1 \<le> Ey" by simp
    then have ny: "- 1022 \<le> exponent y" "Ey = exponent y"
      by (simp_all add: Ex_def Ey_def max_def split: if_splits)
    have "nearest x \<le> 2 powi (Ex + 1)"
      using nearest_upper [OF assms(1)] by (simp add: Ex_def)
    also have "\<dots> \<le> 2 powi Ey"
      using lt by (intro power_int_increasing) simp_all
    also have "\<dots> \<le> nearest y"
      using nearest_lower [OF y ny(1)] by (simp add: ny(2))
    finally show ?thesis .
  qed
qed

lemma nearest_mono:
  assumes "x \<le> y"
  shows "nearest x \<le> nearest y"
proof (cases "0 < x")
  case True
  then show ?thesis using assms by (rule nearest_mono_pos)
next
  case False
  note x = this
  show ?thesis
  proof (cases "0 \<le> y")
    case True
    have "nearest x \<le> 0"
      using x nearest_nonneg [of "- x"] by (simp add: nearest_minus)
    with nearest_nonneg [OF True] show ?thesis by linarith
  next
    case False
    then have "nearest (- y) \<le> nearest (- x)"
      using assms by (intro nearest_mono_pos) simp_all
    then show ?thesis by (simp add: nearest_minus)
  qed
qed


lemma nearest_of_int: "\<bar>m\<bar> < 2 ^ 53 \<Longrightarrow> nearest (of_int m) = of_int m"
  using nearest_representable [of "of_int m" m 0] by simp

lemma nearest_half_int: "\<bar>m\<bar> < 2 ^ 53 \<Longrightarrow> nearest (of_int m / 2) = of_int m / 2"
  using nearest_representable [of "of_int m / 2" m "- 1"] by (simp add: power_int_minus field_simps)

lemma exponent_ge:
  assumes "2 powi e \<le> x"
  shows "e \<le> exponent x"
proof -
  have "(0::real) < 2 powi e"
    by (simp add: zero_less_power_int)
  with assms have pos: "0 < x"
    by linarith
  have "(2::real) powi e < 2 powi (exponent x + 1)"
    using exponent_bounds [OF pos] assms by linarith
  then have "e < exponent x + 1"
    by (rule two_powi_less_imp)
  then show ?thesis by simp
qed

lemma exponent_le:
  assumes "0 < x" and "x \<le> 2 powi e"
  shows "exponent x \<le> e"
proof -
  have "(2::real) powi exponent x < 2 powi (e + 1)"
  proof -
    have "(2::real) powi exponent x \<le> 2 powi e"
      using exponent_bounds [OF assms(1)] assms(2) by linarith
    also have "\<dots> < 2 powi (e + 1)"
      by (intro power_int_strict_increasing) simp_all
    finally show ?thesis .
  qed
  then have "exponent x < e + 1"
    by (rule two_powi_less_imp)
  then show ?thesis by simp
qed


text \<open>
  The operations on numbers: evaluation on numerals, and monotonicity for the order
  \<open>num_le\<close>.
\<close>

lemmas double_eval =
  exponent_def round_half_even_def quantum_def nearest_def round_double_def
  bit_length.simps Let_def

lemma nearest_nonpos: "x \<le> 0 \<Longrightarrow> nearest x \<le> 0"
  using nearest_nonneg [of "- x"] by (simp add: nearest_minus)

lemma round_double_0 [simp]: "round_double 0 = Num 0"
  by (simp add: round_double_def)

lemma round_double_cases:
  "round_double v = Num (nearest v) \<or> round_double v = Infinity (0 < v)"
  by (simp add: round_double_def Let_def)

lemma round_double_Num:
  "\<bar>nearest v\<bar> < 2 ^ 1024 \<Longrightarrow> round_double v = Num (nearest v)"
  by (simp add: round_double_def Let_def)

lemma round_double_is_double: "round_double v = Num x \<Longrightarrow> nearest x = x"
  by (auto simp: round_double_def Let_def split: if_splits)

lemma round_double_mono:
  assumes "x \<le> y"
  shows "num_le (round_double x) (round_double y)"
proof -
  note m = nearest_mono [OF assms]
  show ?thesis
  proof (cases "2 ^ 1024 \<le> \<bar>nearest x\<bar>")
    case True
    note ox = this
    show ?thesis
    proof (cases "2 ^ 1024 \<le> \<bar>nearest y\<bar>")
      case True
      with ox assms show ?thesis
        by (simp add: round_double_def Let_def)
    next
      case False
      have "\<not> 0 < x"
      proof
        assume "0 < x"
        then have "0 \<le> nearest x" by (simp add: nearest_nonneg)
        with ox m False show False by linarith
      qed
      with ox False show ?thesis
        by (simp add: round_double_def Let_def)
    qed
  next
    case False
    note nx = this
    show ?thesis
    proof (cases "2 ^ 1024 \<le> \<bar>nearest y\<bar>")
      case True
      have "0 < y"
      proof (rule ccontr)
        assume "\<not> 0 < y"
        then have "nearest y \<le> 0" by (simp add: nearest_nonpos)
        with True m nx show False by linarith
      qed
      with True nx show ?thesis
        by (simp add: round_double_def Let_def)
    next
      case False
      with nx m show ?thesis
        by (simp add: round_double_def Let_def)
    qed
  qed
qed

lemma round_double_le_top [simp]: "num_le (round_double v) (Infinity True)"
  using round_double_cases [of v] by auto

lemma round_double_ge_bot [simp]: "num_le (Infinity False) (round_double v)"
  using round_double_cases [of v] by auto


lemma round_double_between:
  assumes "A \<le> v" and "v \<le> B" and "nearest A = A" and "nearest B = B"
    and "- (2 ^ 1024) < A" and "B < 2 ^ 1024"
  shows "round_double v = Num (nearest v) \<and> A \<le> nearest v \<and> nearest v \<le> B"
proof -
  have "A \<le> nearest v"
    using nearest_mono [OF assms(1)] assms(3) by simp
  moreover have "nearest v \<le> B"
    using nearest_mono [OF assms(2)] assms(4) by simp
  ultimately show ?thesis
    using assms(5,6) by (simp add: round_double_Num abs_less_iff)
qed

lemma round_double_nonneg: "0 \<le> v \<Longrightarrow> num_le (Num 0) (round_double v)"
  using round_double_mono [of 0 v] by simp

lemma round_double_overflow:
  assumes "2 ^ 1024 \<le> v"
  shows "round_double v = Infinity True"
proof -
  have "nearest (2 ^ 1024) = (2 ^ 1024 :: real)"
    using nearest_representable [of "2 ^ 1024" 1 1024] by simp
  then have "2 ^ 1024 \<le> nearest v"
    using nearest_mono [OF assms] by simp
  moreover have "(0::real) < 2 ^ 1024"
    by simp
  then have "0 < v"
    using assms by linarith
  ultimately show ?thesis
    by (simp add: round_double_def Let_def)
qed

lemma Math_max_0: "num_le (Num 0) v \<Longrightarrow> Math_max (Num 0) v = v"
  by (cases v) simp_all

lemma js_div_nonneg:
  assumes "num_le (Num 0) p" and "0 < c"
  shows "num_le (Num 0) (js_div p (Num c))"
  using assms by (cases p) (auto intro!: round_double_nonneg)


lemma js_mul_mono_right:
  assumes "0 < c" and "num_le a b"
  shows "num_le (js_mul (Num c) a) (js_mul (Num c) b)"
  using assms by (cases a; cases b) (auto intro!: round_double_mono)

lemma js_mul_mono_left:
  assumes "0 < c" and "num_le a b"
  shows "num_le (js_mul a (Num c)) (js_mul b (Num c))"
  using assms by (cases a; cases b) (auto intro!: round_double_mono)

lemma js_add_mono:
  assumes "num_le a b"
  shows "num_le (js_add (Num c) a) (js_add (Num c) b)"
  using assms by (cases a; cases b) (auto intro!: round_double_mono)

lemma js_div_mono:
  assumes "0 < c" and "num_le a b"
  shows "num_le (js_div a (Num c)) (js_div b (Num c))"
  using assms by (cases a; cases b) (auto intro!: round_double_mono simp: divide_right_mono)

lemma Math_round_mono:
  assumes "num_le a b"
  shows "num_le (Math_round a) (Math_round b)"
  using assms by (cases a; cases b) (auto intro!: floor_mono)


section \<open>Properties of the pricing engine\<close>

text \<open>The multipliers as doubles: each is the double nearest to the table's decimal.\<close>

lemmas price_eval =
  estimatePriceMMK_def raw_def serviceMultiplier_def regionMultiplier_def

lemma serviceMultiplier_value:
  "serviceMultiplier s =
     Num (case s of Standard \<Rightarrow> 1
          | Express \<Rightarrow> 3039929748475085 / 2251799813685248
          | Same_day \<Rightarrow> 8106479329266893 / 4503599627370496)"
  by (cases s) (simp_all add: serviceMultiplier_def double_eval)

lemma regionMultiplier_value:
  "regionMultiplier r =
     Num (case r of Yangon \<Rightarrow> 1 | Other \<Rightarrow> 5 / 4
          | _ \<Rightarrow> 2589569785738035 / 2251799813685248)"
  by (cases r) (simp_all add: regionMultiplier_def double_eval)

lemma serviceMultiplier_range:
  obtains c where "serviceMultiplier s = Num c" and "1 \<le> c" and "c \<le> 2"
proof
  show "serviceMultiplier s = Num (case s of Standard \<Rightarrow> 1
          | Express \<Rightarrow> 3039929748475085 / 2251799813685248
          | Same_day \<Rightarrow> 8106479329266893 / 4503599627370496)"
    by (rule serviceMultiplier_value)
qed (cases s; simp)+

lemma regionMultiplier_range:
  obtains c where "regionMultiplier r = Num c" and "1 \<le> c" and "c \<le> 2"
proof
  show "regionMultiplier r = Num (case r of Yangon \<Rightarrow> 1 | Other \<Rightarrow> 5 / 4
          | _ \<Rightarrow> 2589569785738035 / 2251799813685248)"
    by (rule regionMultiplier_value)
qed (cases r; simp)+


lemma serviceMultiplier_spec: "serviceMultiplier s = round_double (spec_serviceMultiplier s)"
  by (cases s) (simp_all add: serviceMultiplier_def)

lemma regionMultiplier_spec: "regionMultiplier r = round_double (spec_regionMultiplier r)"
  by (cases r) (simp_all add: regionMultiplier_def)


text \<open>
  \<open>Math.round(x / 100) * 100\<close> on exact values is the specification's rounding, which
  yields a multiple of 100 and sends a halfway value up.
\<close>

lemma floor_half_up_100: "of_int \<lfloor>x / 100 + 1 / 2\<rfloor> * 100 = round_to_nearest_100 x"
proof -
  define q where "q = \<lfloor>x / 100\<rfloor>"
  have lo: "of_int q \<le> x / 100" and hi: "x / 100 < of_int q + 1"
    unfolding q_def by linarith+
  show ?thesis
  proof (cases "x - 100 * of_int q < 50")
    case True
    have "\<lfloor>x / 100 + 1 / 2\<rfloor> = q"
      using lo True by (intro floor_unique) auto
    with True show ?thesis
      by (simp add: round_to_nearest_100_def q_def Let_def)
  next
    case False
    have "\<lfloor>x / 100 + 1 / 2\<rfloor> = q + 1"
      using hi False by (intro floor_unique) auto
    with False show ?thesis
      by (simp add: round_to_nearest_100_def q_def Let_def)
  qed
qed

text \<open>
  The specification's rounding picks the multiple of 100 within 50 of its argument, the
  upper one when two are.
\<close>

lemma round_to_nearest_100_nearest:
  "round_to_nearest_100 x - 50 \<le> x \<and> x < round_to_nearest_100 x + 50"
proof -
  define q where "q = \<lfloor>x / 100\<rfloor>"
  have "of_int q \<le> x / 100" and "x / 100 < of_int q + 1"
    unfolding q_def by linarith+
  then have "100 * of_int q \<le> x" and "x < 100 * of_int q + 100"
    by (simp_all add: field_simps)
  then show ?thesis
    unfolding round_to_nearest_100_def Let_def q_def [symmetric] by auto
qed

lemma round_to_nearest_100_halfway:
  "round_to_nearest_100 (100 * of_int k + 50) = 100 * of_int (k + 1)"
proof -
  have "\<lfloor>(100 * of_int k + 50) / 100 :: real\<rfloor> = k"
    by (intro floor_unique) (simp_all add: field_simps)
  then show ?thesis
    by (simp add: round_to_nearest_100_def Let_def)
qed

lemma round_to_nearest_100_multiple: "\<exists>k::int. round_to_nearest_100 x = 100 * of_int k"
proof (cases "x - 100 * of_int \<lfloor>x / 100\<rfloor> < 50")
  case True
  then have "round_to_nearest_100 x = 100 * of_int \<lfloor>x / 100\<rfloor>"
    by (simp add: round_to_nearest_100_def Let_def)
  then show ?thesis ..
next
  case False
  then have "round_to_nearest_100 x = 100 * of_int (\<lfloor>x / 100\<rfloor> + 1)"
    by (simp add: round_to_nearest_100_def Let_def)
  then show ?thesis ..
qed


text \<open>
  The division \<open>raw / 100\<close> is rounded to a double before \<open>Math.round\<close> sees it. For a
  double \<open>raw\<close> between 2500 and \<open>2 ^ 46\<close> that rounding never reaches the next half
  integer: a double below \<open>100 * k + 50\<close> is at least one spacing below it, and a spacing
  of \<open>raw\<close> is at least 64 spacings of \<open>raw / 100\<close>. So the price is the half-up rounding
  of the double \<open>raw\<close>. For weights from 0 to \<open>10 ^ 9\<close> kilograms \<open>raw\<close> is such a double.
\<close>

lemma div_100_keeps_half_up:
  assumes xd: "nearest x = x" and lo: "2500 \<le> x" and hi: "x \<le> 2 ^ 46"
  shows "nearest (x / 100) < of_int \<lfloor>x / 100 + 1 / 2\<rfloor> + 1 / 2
    \<and> of_int \<lfloor>x / 100 + 1 / 2\<rfloor> - 1 / 2 \<le> nearest (x / 100)"
proof -
  define y where "y = x / 100"
  define k where "k = \<lfloor>y + 1 / 2\<rfloor>"
  define z where "z = nearest y"
  have x: "x = 100 * y" by (simp add: y_def)
  have y25: "25 \<le> y" using lo by (simp add: y_def)
  have k1: "of_int k - 1 / 2 \<le> y" and k2: "y < of_int k + 1 / 2"
    unfolding k_def by linarith+
  have "(25::real) < of_int k + 1 / 2" using y25 k2 by linarith
  then have "(24::real) < of_int k" by linarith
  then have kl: "25 \<le> k" by linarith
  have "y \<le> 2 ^ 46 / 100" using hi by (simp add: y_def)
  then have "of_int k \<le> (2 ^ 46 / 100 + 1 / 2 :: real)" using k1 by linarith
  also have "\<dots> < 2 ^ 40" by simp
  finally have "k < 2 ^ 40"
    by (metis of_int_less_iff of_int_numeral of_int_power)
  then have ku: "\<bar>2 * k - 1\<bar> < 2 ^ 53" "\<bar>2 * k + 1\<bar> < 2 ^ 53"
    using kl by simp_all
  have lowrep: "nearest (of_int k - 1 / 2) = of_int k - 1 / 2"
    using nearest_half_int [OF ku(1)] by (simp add: field_simps)
  have hirep: "nearest (of_int k + 1 / 2) = of_int k + 1 / 2"
    using nearest_half_int [OF ku(2)] by (simp add: field_simps)
  have zlo: "of_int k - 1 / 2 \<le> z"
    using nearest_mono [OF k1] lowrep by (simp add: z_def)
  have zhi: "z \<le> of_int k + 1 / 2"
    using nearest_mono [of y "of_int k + 1 / 2"] k2 hirep by (simp add: z_def)
  have zne: "z \<noteq> of_int k + 1 / 2"
  proof
    assume eq: "z = of_int k + 1 / 2"
    define ey where "ey = exponent y"
    define ex where "ex = exponent x"
    have ypos: "0 < y" using y25 by simp
    have xpos: "0 < x" using lo by simp
    have ey4: "4 \<le> ey"
      unfolding ey_def using y25 by (intro exponent_ge) simp
    have "\<bar>y\<bar> = y" using ypos by simp
    then have qy: "quantum y = 2 powi (ey - 52)"
      using ey4 by (simp add: quantum_def ey_def)
    have "(2::real) powi (ey + 6) = 64 * 2 powi ey"
      using power_int_add [of "2::real" ey 6] by simp
    also have "\<dots> \<le> 64 * y"
      using exponent_bounds [OF ypos] by (simp add: ey_def)
    also have "\<dots> \<le> x"
      using ypos by (simp add: x)
    finally have exy: "ey + 6 \<le> ex"
      unfolding ex_def by (rule exponent_ge)
    have "x \<le> 2 powi 46" using hi by simp
    then have ex46: "ex \<le> 46"
      unfolding ex_def using xpos by (intro exponent_le)
    have "\<bar>x\<bar> = x" using xpos by simp
    then have qx: "quantum x = 2 powi (ex - 52)"
      using exy ey4 by (simp add: quantum_def ex_def)
    define nx where "nx = round_half_even (x / quantum x)"
    have xg: "x = quantum x * of_int nx"
      using xd xpos by (simp add: nearest_def nx_def)
    define d where "d = nat (52 - ex)"
    have d: "52 - ex = int d" using ex46 by (simp add: d_def)
    have "(2::real) powi (ex - 52) * 2 ^ d = 2 powi (ex - 52) * 2 powi (52 - ex)"
      by (simp add: d)
    also have "\<dots> = 1"
      by (simp add: power_int_add [symmetric])
    finally have one: "quantum x * 2 ^ d = 1"
      by (simp add: qx)
    define T where "T = (100 * k + 50) * 2 ^ d"
    have tg: "100 * of_int k + 50 = quantum x * of_int T"
    proof -
      have "quantum x * of_int T = (quantum x * 2 ^ d) * (100 * of_int k + 50)"
        by (simp add: T_def)
      then show ?thesis by (simp add: one)
    qed
    have "x < 100 * of_int k + 50" using k2 by (simp add: x)
    then have "quantum x * of_int nx < quantum x * of_int T"
      using xg tg by simp
    then have "(of_int nx :: real) < of_int T"
      by (simp add: mult_less_cancel_left_pos)
    then have "nx + 1 \<le> T" by simp
    then have "(of_int nx :: real) + 1 \<le> of_int T"
      by (metis of_int_1 of_int_add of_int_le_iff)
    then have "quantum x * (of_int nx + 1) \<le> quantum x * of_int T"
      by (intro mult_left_mono) simp_all
    then have gap: "x + quantum x \<le> 100 * of_int k + 50"
      using xg tg by (simp add: algebra_simps)
    have "quantum x = 2 powi (ex - 52)" by (rule qx)
    moreover have "(2::real) powi (ey + 6 - 52) \<le> 2 powi (ex - 52)"
      using exy by (intro power_int_increasing) simp_all
    moreover have "(2::real) powi (ey + 6 - 52) = 64 * 2 powi (ey - 52)"
      using power_int_add [of "2::real" "ey - 52" 6] by (simp add: algebra_simps)
    ultimately have q64: "64 * quantum y \<le> quantum x"
      by (simp add: qy)
    have "\<bar>z - y\<bar> \<le> quantum y / 2"
      unfolding z_def by (rule nearest_close)
    then have "of_int k + 1 / 2 - y \<le> quantum y / 2"
      using eq by linarith
    then have "100 * of_int k + 50 - x \<le> 50 * quantum y"
      by (simp add: x)
    with gap q64 quantum_pos [of y] show False
      by linarith
  qed
  show ?thesis
    using zlo zhi zne unfolding z_def k_def y_def by linarith
qed

lemma price_of_raw:
  assumes "nearest x = x" and "2500 \<le> x" and "x \<le> 2 ^ 46"
  shows "js_mul (Math_round (js_div (Num x) (Num 100))) (Num 100) = Num (round_to_nearest_100 x)"
proof -
  define k where "k = \<lfloor>x / 100 + 1 / 2\<rfloor>"
  define z where "z = nearest (x / 100)"
  have z: "z < of_int k + 1 / 2" "of_int k - 1 / 2 \<le> z"
    using div_100_keeps_half_up [OF assms] by (simp_all add: z_def k_def)
  have "(24::real) < x / 100 + 1 / 2" using assms(2) by simp
  then have k0: "24 \<le> k" unfolding k_def by (simp add: le_floor_iff)
  have "x / 100 + 1 / 2 < 2 ^ 40" using assms(3) by simp
  then have "k < 2 ^ 40"
    unfolding k_def by (simp add: floor_less_iff)
  then have k1: "\<bar>k * 100\<bar> < 2 ^ 53" using k0 by simp
  have "(of_int k :: real) < 2 ^ 40"
    using \<open>k < 2 ^ 40\<close> by (metis of_int_less_iff of_int_numeral of_int_power)
  then have "\<bar>z\<bar> < 2 ^ 1024"
  proof -
    have "(2::real) ^ 41 < 2 ^ 1024" by (intro power_strict_increasing) simp_all
    with z k0 \<open>of_int k < 2 ^ 40\<close> show ?thesis by (simp add: abs_less_iff)
  qed
  then have a: "js_div (Num x) (Num 100) = Num z"
    by (simp add: z_def round_double_Num)
  have "\<lfloor>z + 1 / 2\<rfloor> = k"
    using z by (intro floor_unique) simp_all
  then have b: "Math_round (Num z) = Num (of_int k)"
    by simp
  have n: "nearest (of_int k * 100) = of_int k * 100"
    using nearest_of_int [OF k1] by simp
  have "\<bar>of_int k * 100 :: real\<bar> < 2 ^ 1024"
  proof -
    have "\<bar>of_int (k * 100) :: real\<bar> < 2 ^ 53"
      using k1 by (metis of_int_abs of_int_less_iff of_int_numeral of_int_power)
    moreover have "(2::real) ^ 53 < 2 ^ 1024" by (intro power_strict_increasing) simp_all
    ultimately show ?thesis by simp
  qed
  then have c: "js_mul (Num (of_int k)) (Num 100) = Num (of_int k * 100)"
    using n by (simp add: round_double_Num)
  show ?thesis
    unfolding a b c by (simp add: k_def floor_half_up_100)
qed

lemma raw_in_range:
  assumes "0 \<le> w" and "w \<le> 10 ^ 9"
  obtains x where "raw s r (Num w) = Num x" and "nearest x = x" and "2500 \<le> x" and "x \<le> 2 ^ 46"
proof -
  obtain cs where cs: "serviceMultiplier s = Num cs" "1 \<le> cs" "cs \<le> 2"
    by (rule serviceMultiplier_range)
  obtain cr where cr: "regionMultiplier r = Num cr" "1 \<le> cr" "cr \<le> 2"
    by (rule regionMultiplier_range)
  have big: "(4800000010000::real) < 2 ^ 1024"
  proof -
    have "(4800000010000::real) < 2 ^ 46" by simp
    also have "(2::real) ^ 46 < 2 ^ 1024" by (intro power_strict_increasing) simp_all
    finally show ?thesis .
  qed
  have rep: "nearest 1200000000000 = 1200000000000" "nearest 2500 = 2500"
    "nearest 1200000002500 = 1200000002500" "nearest 2400000005000 = 2400000005000"
    "nearest 4800000010000 = 4800000010000"
    using nearest_of_int [of 1200000000000] nearest_of_int [of 2500]
      nearest_of_int [of 1200000002500] nearest_of_int [of 2400000005000]
      nearest_of_int [of 4800000010000] by simp_all
  define x1 where "x1 = nearest (1200 * w)"
  have r1: "round_double (1200 * w) = Num x1 \<and> 0 \<le> x1 \<and> x1 \<le> 1200000000000"
    unfolding x1_def using assms big
    by (intro round_double_between) (simp_all add: rep)
  define x2 where "x2 = nearest (2500 + x1)"
  have r2: "round_double (2500 + x1) = Num x2 \<and> 2500 \<le> x2 \<and> x2 \<le> 1200000002500"
    unfolding x2_def using r1 big
    by (intro round_double_between) (simp_all add: rep)
  define x3 where "x3 = nearest (x2 * cs)"
  have "2500 * 1 \<le> x2 * cs"
    using r2 cs by (intro mult_mono) simp_all
  moreover have "x2 * cs \<le> 1200000002500 * 2"
    using r2 cs by (intro mult_mono) simp_all
  ultimately have r3: "round_double (x2 * cs) = Num x3 \<and> 2500 \<le> x3 \<and> x3 \<le> 2400000005000"
    unfolding x3_def using big
    by (intro round_double_between) (simp_all add: rep)
  define x4 where "x4 = nearest (x3 * cr)"
  have "2500 * 1 \<le> x3 * cr"
    using r3 cr by (intro mult_mono) simp_all
  moreover have "x3 * cr \<le> 2400000005000 * 2"
    using r3 cr by (intro mult_mono) simp_all
  ultimately have r4: "round_double (x3 * cr) = Num x4 \<and> 2500 \<le> x4 \<and> x4 \<le> 4800000010000"
    unfolding x4_def using big
    by (intro round_double_between) (simp_all add: rep)
  have "raw s r (Num w) = Num x4"
    using r1 r2 r3 r4 by (simp add: raw_def cs(1) cr(1))
  moreover have "nearest x4 = x4"
    by (simp add: x4_def)
  moreover have "x4 \<le> 2 ^ 46"
    using r4 by simp
  ultimately show ?thesis
    using r4 that by blast
qed


text \<open>
  C1. For every service tier, region and chargeable weight from 0 to \<open>10 ^ 9\<close>,
  \<open>estimatePriceMMK\<close> returns the rounding to the nearest 100, the half going up, of
  \<open>(2500 + 1200 * w) * serviceMultiplier * regionMultiplier\<close> as computed in doubles:
  the sum and each product rounded to the nearest double, the multipliers being the
  doubles nearest to 1.0 (Standard), 1.35 (Express), 1.8 (Same-day) and to 1.0 (Yangon),
  1.25 (Other), 1.15 (any other region).
\<close>

theorem estimatePrice_formula:
  assumes "0 \<le> w" and "w \<le> 10 ^ 9"
  shows "\<exists>x. js_mul
               (js_mul (js_add (Num 2500) (js_mul (Num 1200) (Num w)))
                  (round_double (spec_serviceMultiplier s)))
               (round_double (spec_regionMultiplier r)) = Num x \<and>
             estimatePriceMMK s r (Num w) = Num (round_to_nearest_100 x)"
proof -
  obtain x where x: "raw s r (Num w) = Num x" "nearest x = x" "2500 \<le> x" "x \<le> 2 ^ 46"
    using assms by (rule raw_in_range)
  have "estimatePriceMMK s r (Num w) = Num (round_to_nearest_100 x)"
    unfolding estimatePriceMMK_def x(1) using x(2-4) by (rule price_of_raw)
  moreover have "js_mul
               (js_mul (js_add (Num 2500) (js_mul (Num 1200) (Num w)))
                  (round_double (spec_serviceMultiplier s)))
               (round_double (spec_regionMultiplier r)) = Num x"
    using x(1) by (simp add: raw_def serviceMultiplier_spec regionMultiplier_spec)
  ultimately show ?thesis by blast
qed

theorem estimatePrice_formula_witness:
  "(0::real) \<le> 15 / 4 \<and> (15 / 4 :: real) \<le> 10 ^ 9 \<and>
   estimatePriceMMK Standard Mandalay (Num (15 / 4)) = Num 8000"
proof -
  have h: "(0::real) \<le> 15 / 4" "(15 / 4 :: real) \<le> 10 ^ 9"
    by simp_all
  obtain x where x: "js_mul
               (js_mul (js_add (Num 2500) (js_mul (Num 1200) (Num (15 / 4))))
                  (round_double (spec_serviceMultiplier Standard)))
               (round_double (spec_regionMultiplier Mandalay)) = Num x"
    "estimatePriceMMK Standard Mandalay (Num (15 / 4)) = Num (round_to_nearest_100 x)"
    using estimatePrice_formula [OF h, of Standard Mandalay] by blast
  have e: "js_mul
               (js_mul (js_add (Num 2500) (js_mul (Num 1200) (Num (15 / 4))))
                  (round_double (spec_serviceMultiplier Standard)))
               (round_double (spec_regionMultiplier Mandalay))
      = Num (8851068603596799 / 1099511627776)"
    by (simp add: double_eval)
  have xv: "x = 8851068603596799 / 1099511627776"
    using x(1) unfolding e number.inject by (rule sym)
  have "round_to_nearest_100 x = 8000"
    unfolding xv by (simp add: round_to_nearest_100_def)
  with x(2) h show ?thesis
    by simp
qed


text \<open>
  With the product computed exactly the formula gives another price: for Same-day, Bago
  and 18.75 kg the exact product is 51750, which rounds to 51800, and the function
  returns 51700.
\<close>

theorem estimatePrice_formula_counterexample:
  "estimatePriceMMK Same_day Bago (Num (75 / 4)) = Num 51700 \<and>
   round_to_nearest_100
     ((2500 + 1200 * (75 / 4)) * spec_serviceMultiplier Same_day * spec_regionMultiplier Bago)
     = 51800"
  by (simp add: price_eval double_eval round_to_nearest_100_def)


text \<open>
  C4. For non-negative finite dimensions whose product \<open>l * w\<close> does not overflow to
  \<open>Infinity\<close>, the volumetric weight is \<open>(l * w * h) / 5000\<close> as computed in doubles (each
  product and the quotient rounded to the nearest double); it is never less than 0 and
  never \<open>NaN\<close>, and it is 0 as soon as one dimension is 0.
\<close>

theorem volumetricWeightKg_double:
  assumes "0 \<le> l" and "0 \<le> w" and "0 \<le> h"
    and "js_mul (Num l) (Num w) \<noteq> Infinity True"
  shows "volumetricWeightKg (Num l) (Num w) (Num h)
           = js_div (js_mul (js_mul (Num l) (Num w)) (Num h)) (Num 5000) \<and>
         num_le (Num 0) (volumetricWeightKg (Num l) (Num w) (Num h)) \<and>
         (l = 0 \<or> w = 0 \<or> h = 0 \<longrightarrow> volumetricWeightKg (Num l) (Num w) (Num h) = Num 0)"
proof -
  have "num_le (Num 0) (js_mul (Num l) (Num w))"
    using assms(1,2) by (simp add: round_double_nonneg)
  then obtain a where a: "js_mul (Num l) (Num w) = Num a" "0 \<le> a"
    using assms(4) by (cases "js_mul (Num l) (Num w)") simp_all
  have p2: "num_le (Num 0) (js_mul (Num a) (Num h))"
    using a(2) assms(3) by (simp add: round_double_nonneg)
  have v: "num_le (Num 0) (js_div (js_mul (Num a) (Num h)) (Num 5000))"
    using p2 by (rule js_div_nonneg) simp
  have eq: "volumetricWeightKg (Num l) (Num w) (Num h)
      = js_div (js_mul (Num a) (Num h)) (Num 5000)"
    using v by (simp add: volumetricWeightKg_def a(1) Math_max_0 del: js_mul.simps js_div.simps)
  have zero: "volumetricWeightKg (Num l) (Num w) (Num h) = Num 0" if "l = 0 \<or> w = 0 \<or> h = 0"
  proof -
    have ah: "a * h = 0"
    proof (cases "h = 0")
      case True
      then show ?thesis by simp
    next
      case False
      with that have lw: "l * w = 0" by auto
      have "js_mul (Num l) (Num w) = Num 0"
        unfolding js_mul.simps lw by simp
      with a(1) have "a = 0" by simp
      then show ?thesis by simp
    qed
    have "js_div (js_mul (Num a) (Num h)) (Num 5000) = Num 0"
      unfolding js_mul.simps ah by simp
    then show ?thesis
      unfolding eq .
  qed
  show ?thesis
    using eq v zero by (simp add: a(1) del: js_mul.simps js_div.simps)
qed

theorem volumetricWeightKg_double_witness:
  "(0::real) \<le> 20 \<and> (0::real) \<le> 15 \<and> (0::real) \<le> 10 \<and>
   js_mul (Num 20) (Num 15) \<noteq> Infinity True \<and>
   js_mul (Num 20) (Num 0) \<noteq> Infinity True \<and>
   volumetricWeightKg (Num 20) (Num 15) (Num 10) = Num (5404319552844595 / 2 ^ 53) \<and>
   volumetricWeightKg (Num 20) (Num 0) (Num 10) = Num 0"
proof -
  have h: "(0::real) \<le> 20" "(0::real) \<le> 15" "(0::real) \<le> 10" "(0::real) \<le> 0"
    by simp_all
  have n1: "js_mul (Num 20) (Num 15) \<noteq> Infinity True"
    by (simp add: double_eval)
  have n2: "js_mul (Num 20) (Num 0) \<noteq> Infinity True"
    by simp
  have "volumetricWeightKg (Num 20) (Num 15) (Num 10)
      = js_div (js_mul (js_mul (Num 20) (Num 15)) (Num 10)) (Num 5000)"
    using volumetricWeightKg_double [OF h(1) h(2) h(3) n1] by blast
  also have "\<dots> = Num (5404319552844595 / 2 ^ 53)"
    by (simp add: double_eval)
  finally have a: "volumetricWeightKg (Num 20) (Num 15) (Num 10) = Num (5404319552844595 / 2 ^ 53)" .
  have b: "volumetricWeightKg (Num 20) (Num 0) (Num 10) = Num 0"
    using volumetricWeightKg_double [OF h(1) h(4) h(3) n2] by blast
  show ?thesis
    using h n1 n2 a b by blast
qed


text \<open>
  The result is not the exact quotient: for the dimensions 1, 1, 1 it is the double
  nearest to \<open>1 / 5000\<close>, which is another number. And when \<open>l * w\<close> overflows, a height
  of 0 gives \<open>NaN\<close>, not 0.
\<close>

theorem volumetricWeightKg_exact_counterexample:
  "volumetricWeightKg (Num 1) (Num 1) (Num 1) = Num (7378697629483821 / 2 ^ 65) \<and>
   (7378697629483821 / 2 ^ 65 :: real) \<noteq> 1 * 1 * 1 / 5000 \<and>
   volumetricWeightKg (Num (2 ^ 1000)) (Num (2 ^ 1000)) (Num 0) = NaN"
proof -
  have a: "volumetricWeightKg (Num 1) (Num 1) (Num 1) = Num (7378697629483821 / 2 ^ 65)"
    by (simp add: volumetricWeightKg_def double_eval)
  have b: "(7378697629483821 / 2 ^ 65 :: real) \<noteq> 1 * 1 * 1 / 5000"
    by simp
  have "(2::real) ^ 1024 \<le> 2 ^ 1000 * 2 ^ 1000"
    by (simp add: power_add [symmetric])
  then have "js_mul (Num (2 ^ 1000)) (Num (2 ^ 1000)) = Infinity True"
    unfolding js_mul.simps by (rule round_double_overflow)
  then have c: "volumetricWeightKg (Num (2 ^ 1000)) (Num (2 ^ 1000)) (Num 0) = NaN"
    by (simp add: volumetricWeightKg_def del: js_mul.simps(1))
  show ?thesis
    using a b c by blast
qed


text \<open>
  C5. For every service tier, region and chargeable weight from 0 to \<open>10 ^ 9\<close>, the
  estimated price is a multiple of 100, and when the raw value the function computes (in
  doubles) is exactly halfway between two multiples of 100 the price is the larger one.
\<close>

theorem estimatePrice_multiple_of_100_half_up:
  assumes "0 \<le> w" and "w \<le> 10 ^ 9"
  shows "(\<exists>k::int. estimatePriceMMK s r (Num w) = Num (100 * of_int k)) \<and>
         (\<forall>k::int. raw s r (Num w) = Num (100 * of_int k + 50) \<longrightarrow>
            estimatePriceMMK s r (Num w) = Num (100 * of_int (k + 1)))"
proof -
  obtain x where x: "raw s r (Num w) = Num x" "nearest x = x" "2500 \<le> x" "x \<le> 2 ^ 46"
    using assms by (rule raw_in_range)
  have p: "estimatePriceMMK s r (Num w) = Num (round_to_nearest_100 x)"
    unfolding estimatePriceMMK_def x(1) using x(2-4) by (rule price_of_raw)
  show ?thesis
    using round_to_nearest_100_multiple [of x]
    by (auto simp: p x(1) round_to_nearest_100_halfway simp del: of_int_add)
qed

theorem estimatePrice_multiple_of_100_half_up_witness:
  "(0::real) \<le> 15 / 4 \<and> (15 / 4 :: real) \<le> 10 ^ 9 \<and>
   raw Express Yangon (Num (15 / 4)) = Num (100 * of_int 94 + 50) \<and>
   estimatePriceMMK Express Yangon (Num (15 / 4)) = Num 9500"
proof -
  have h: "(0::real) \<le> 15 / 4" "(15 / 4 :: real) \<le> 10 ^ 9"
    by simp_all
  have r: "raw Express Yangon (Num (15 / 4)) = Num (100 * of_int 94 + 50)"
    by (simp add: raw_def serviceMultiplier_def regionMultiplier_def double_eval)
  have "estimatePriceMMK Express Yangon (Num (15 / 4)) = Num (100 * of_int (94 + 1))"
    using estimatePrice_multiple_of_100_half_up [OF h, of Express Yangon] r by blast
  with h r show ?thesis
    by simp
qed


text \<open>
  A raw value that is halfway only in exact arithmetic can go down: for Standard,
  Mandalay and 3.75 kg the exact product is 8050, the double the function computes is just
  below it, and the price is 8000.
\<close>

theorem estimatePrice_half_up_counterexample:
  "(2500 + 1200 * (15 / 4)) * spec_serviceMultiplier Standard * spec_regionMultiplier Mandalay
     = (100 * of_int 80 + 50 :: real) \<and>
   raw Standard Mandalay (Num (15 / 4)) = Num (8851068603596799 / 1099511627776) \<and>
   estimatePriceMMK Standard Mandalay (Num (15 / 4)) = Num 8000"
  by (simp add: price_eval double_eval)


text \<open>
  C7. The chargeable weight is the larger of the actual and the volumetric weight, and for
  two equal weights it is that weight.
\<close>

theorem chargeableKg_max:
  "chargeableKg actual volumetric = max actual volumetric \<and>
   chargeableKg actual actual = actual"
  by (simp add: chargeableKg_def or_zero_def)


text \<open>
  C10. For a fixed service tier and region the estimated price does not decrease when the
  chargeable weight grows.
\<close>

theorem estimatePrice_mono:
  assumes "num_le w1 w2"
  shows "num_le (estimatePriceMMK s r w1) (estimatePriceMMK s r w2)"
proof -
  obtain cs where cs: "serviceMultiplier s = Num cs" "0 < cs"
    by (rule serviceMultiplier_range [of s]) simp
  obtain cr where cr: "regionMultiplier r = Num cr" "0 < cr"
    by (rule regionMultiplier_range [of r]) simp
  have c100: "(0::real) < 100" and c1200: "(0::real) < 1200"
    by simp_all
  have a1: "num_le (js_mul (Num 1200) w1) (js_mul (Num 1200) w2)"
    using c1200 assms by (rule js_mul_mono_right)
  have a2: "num_le (js_add (Num 2500) (js_mul (Num 1200) w1))
      (js_add (Num 2500) (js_mul (Num 1200) w2))"
    using a1 by (rule js_add_mono)
  have a3: "num_le (js_mul (js_add (Num 2500) (js_mul (Num 1200) w1)) (Num cs))
      (js_mul (js_add (Num 2500) (js_mul (Num 1200) w2)) (Num cs))"
    using cs(2) a2 by (rule js_mul_mono_left)
  have a4: "num_le (raw s r w1) (raw s r w2)"
    unfolding raw_def Let_def cs(1) cr(1) using cr(2) a3 by (rule js_mul_mono_left)
  have a5: "num_le (js_div (raw s r w1) (Num 100)) (js_div (raw s r w2) (Num 100))"
    using c100 a4 by (rule js_div_mono)
  have a6: "num_le (Math_round (js_div (raw s r w1) (Num 100)))
      (Math_round (js_div (raw s r w2) (Num 100)))"
    using a5 by (rule Math_round_mono)
  show ?thesis
    unfolding estimatePriceMMK_def using c100 a6 by (rule js_mul_mono_left)
qed

theorem estimatePrice_mono_witness:
  "num_le (Num 1) (Num 2) \<and>
   estimatePriceMMK Same_day Mandalay (Num 1) = Num 7700 \<and>
   estimatePriceMMK Same_day Mandalay (Num 2) = Num 10100 \<and>
   num_le (estimatePriceMMK Same_day Mandalay (Num 1)) (estimatePriceMMK Same_day Mandalay (Num 2))"
proof -
  have h: "num_le (Num 1) (Num 2)"
    by simp
  have "num_le (estimatePriceMMK Same_day Mandalay (Num 1))
      (estimatePriceMMK Same_day Mandalay (Num 2))"
    using estimatePrice_mono [OF h] .
  moreover have "estimatePriceMMK Same_day Mandalay (Num 1) = Num 7700"
    by (simp add: price_eval double_eval)
  moreover have "estimatePriceMMK Same_day Mandalay (Num 2) = Num 10100"
    by (simp add: price_eval double_eval)
  ultimately show ?thesis
    using h by blast
qed


section \<open>Properties of the profile synchronisation\<close>

lemmas hook_defs =
  setUser_def setProfile_def setLoading_def defaultProfile_def onSnapshot_def
  unsubProfile_def unsubAuth_def onNext_def onError_def authCallback_def mount_def run_def

text \<open>
  The observer does return the function that would close the listener it has just opened.
\<close>

lemma authCallback_returns_cleanup:
  "snd (authCallback (Some u) h) = Some (unsubProfile u)"
  by (simp add: authCallback_def Let_def)

text \<open>
  No event but a listener's own error closes a profile listener: not a new identity, not
  null, not a snapshot, not the teardown.
\<close>

lemma profileListeners_kept:
  "set (profileListeners h) \<subseteq> set (profileListeners (step h (AuthChanged u)))"
  "set (profileListeners h) \<subseteq> set (profileListeners (step h (DocSnapshot v snap)))"
  "set (profileListeners h) \<subseteq> set (profileListeners (step h Teardown))"
  by (cases u) (auto simp: hook_defs Let_def split: option.splits)

text \<open>
  A null identity clears the cells in the same callback and opens no listener.
\<close>

lemma null_identity_clears:
  "authListener h \<Longrightarrow>
   cells (step h (AuthChanged None)) = \<lparr>user = None, profile = None, loading = False\<rparr> \<and>
   profileListeners (step h (AuthChanged None)) = profileListeners h"
  by (simp add: hook_defs)

text \<open>After the teardown the authentication stream reaches the hook no more.\<close>

lemma teardown_stops_auth:
  "step (step h Teardown) (AuthChanged u) = step h Teardown"
  by (simp add: hook_defs)

text \<open>
  C2. When the authentication stream delivers \<open>U\<close> and then \<open>V\<close>, the listener of \<open>U\<close>
  should be closed and nothing of \<open>U\<close> should be published after the switch. On the run
  below both listeners are open after the switch, and a snapshot for \<open>U\<close> that arrives
  after \<open>V\<close>'s replaces \<open>V\<close>'s profile while the identity stays \<open>V\<close>.
\<close>

theorem stale_update_after_identity_switch:
  "cells (run [AuthChanged (Some user_U), AuthChanged (Some user_V),
               DocSnapshot user_V (Some profile_V), DocSnapshot user_U (Some profile_U)])
     = \<lparr>user = Some user_V, profile = Some profile_U, loading = False\<rparr> \<and>
   profileListeners (run [AuthChanged (Some user_U), AuthChanged (Some user_V)])
     = [user_U, user_V]"
  by (simp add: hook_defs)

text \<open>
  C3, for the hook that listens to the document. While \<open>u\<close> is the identity the hook
  holds, a snapshot of \<open>u\<close>'s listener saying that the document does not exist, and an
  error of that listener, both end in the state with identity \<open>u\<close>, the profile
  \<open>{role: "customer", displayName, email}\<close> taken from the identity, and loading false.
  The error is consumed by the callback: the step has no failing result.
\<close>

theorem missing_or_failed_profile_defaults:
  assumes "user (cells h) = Some u" and "u \<in> set (profileListeners h)"
  shows "cells (step h (DocSnapshot u None)) =
           \<lparr>user = Some u,
            profile = Some \<lparr>role = Some customer, stationId = None, stationName = None,
                            displayName = user_displayName u, email = user_email u\<rparr>,
            loading = False\<rparr> \<and>
         cells (step h (DocError u)) =
           \<lparr>user = Some u,
            profile = Some \<lparr>role = Some customer, stationId = None, stationName = None,
                            displayName = user_displayName u, email = user_email u\<rparr>,
            loading = False\<rparr>"
  using assms by (simp add: hook_defs)

theorem missing_or_failed_profile_defaults_witness:
  "user (cells (run [AuthChanged (Some user_U)])) = Some user_U \<and>
   user_U \<in> set (profileListeners (run [AuthChanged (Some user_U)])) \<and>
   cells (run [AuthChanged (Some user_U), DocSnapshot user_U None]) =
     \<lparr>user = Some user_U,
      profile = Some \<lparr>role = Some customer, stationId = None, stationName = None,
                      displayName = Some ''Una'', email = Some ''una@example.org''\<rparr>,
      loading = False\<rparr> \<and>
   cells (run [AuthChanged (Some user_U), DocError user_U]) =
     \<lparr>user = Some user_U,
      profile = Some \<lparr>role = Some customer, stationId = None, stationName = None,
                      displayName = Some ''Una'', email = Some ''una@example.org''\<rparr>,
      loading = False\<rparr>"
proof -
  have h1: "user (cells (run [AuthChanged (Some user_U)])) = Some user_U"
    by (simp add: hook_defs)
  have h2: "user_U \<in> set (profileListeners (run [AuthChanged (Some user_U)]))"
    by (simp add: hook_defs)
  have r1: "run [AuthChanged (Some user_U), DocSnapshot user_U None]
      = step (run [AuthChanged (Some user_U)]) (DocSnapshot user_U None)"
    by (simp add: run_def)
  have r2: "run [AuthChanged (Some user_U), DocError user_U]
      = step (run [AuthChanged (Some user_U)]) (DocError user_U)"
    by (simp add: run_def)
  show ?thesis
    using missing_or_failed_profile_defaults [OF h1 h2] h1 h2 unfolding r1 r2 by simp
qed

text \<open>
  The hook that reads the document once does not substitute the default: for a document
  that does not exist it ends with identity \<open>U\<close>, profile null and loading false.
\<close>

theorem getDoc_missing_profile_counterexample:
  "snd (getDoc_settled (Inr None) (fst (authCallback_getDoc (Some user_U) mount)))
     = mount\<lparr>cells := \<lparr>user = Some user_U, profile = None, loading = False\<rparr>\<rparr> \<and>
   cells (snd (getDoc_settled (Inr None) (fst (authCallback_getDoc (Some user_U) mount))))
     \<noteq> \<lparr>user = Some user_U, profile = Some (defaultProfile user_U), loading = False\<rparr>"
  by (simp add: hook_defs authCallback_getDoc_def getDoc_settled_def)

text \<open>
  C6. A null identity should leave the state at identity null, profile null, loading
  false until a non-null identity arrives. On the run below the state is so right after
  the null identity, but the listener of \<open>U\<close> is still open, and its next snapshot puts
  \<open>U\<close>'s profile back while the identity is null.
\<close>

theorem stale_update_after_logout:
  "cells (run [AuthChanged (Some user_U), AuthChanged None])
     = \<lparr>user = None, profile = None, loading = False\<rparr> \<and>
   profileListeners (run [AuthChanged (Some user_U), AuthChanged None]) = [user_U] \<and>
   cells (run [AuthChanged (Some user_U), AuthChanged None,
               DocSnapshot user_U (Some profile_U)])
     = \<lparr>user = None, profile = Some profile_U, loading = False\<rparr>"
  by (simp add: hook_defs)


text \<open>
  For every identity and state, the hook that reads the document once ends with profile
  null when the document does not exist.
\<close>

lemma getDoc_missing_profile:
  "cells (snd (getDoc_settled (Inr None) (fst (authCallback_getDoc (Some u) h))))
     = \<lparr>user = Some u, profile = None, loading = False\<rparr>"
  by (simp add: hook_defs authCallback_getDoc_def getDoc_settled_def)


text \<open>
  After the teardown the authentication stream reaches the hook no more, and a listener
  left open no longer changes what is published: on the run below it is still open after
  the teardown, and the published state stays as it was.
\<close>

lemma late_snapshot_after_teardown:
  "published (foldl deliver (Mounted mount) [AuthChanged (Some user_U), Teardown])
     = \<lparr>user = Some user_U, profile = None, loading = True\<rparr> \<and>
   published (foldl deliver (Mounted mount)
       [AuthChanged (Some user_U), Teardown, DocSnapshot user_U (Some profile_U)])
     = \<lparr>user = Some user_U, profile = None, loading = True\<rparr>"
  by (simp add: hook_defs)





section \<open>Properties of the logout\<close>

text \<open>
  C9. Whatever the logout request does, \<open>logout\<close> returns normally and the client has no
  \<open>Authorization\<close> header afterwards.
\<close>

theorem logout_clears_token:
  "fst (logout post api) = Inr () \<and>
   headers_common (snd (logout post api)) ''Authorization'' = None"
  by (simp add: logout_def setAuthToken_def split: prod.splits sum.splits)

end
